theory Spec2Isabelle
  imports
    Main
    "HOL-Library.AList"
    "HOL-Library.Sublist"
    "HOL-Library.Multiset"
    "HOL-Library.Char_ord"
    "HOL-Library.List_Lexorder"
begin

section \<open>Python values and errors\<close>

text \<open>
  The exceptions the modelled methods can raise. \<open>KiwiBootLoaderTargetError\<close> carries
  its message; \<open>TypeError\<close>, \<open>ValueError\<close> and \<open>KeyError\<close> are the interpreter's
  own; \<open>ExternalToolFailure\<close> stands for an exception raised inside a collaborator whose
  code is not part of the two modelled classes (a failed command, an abstract hook).
\<close>

datatype kiwi_error =
    KiwiBootLoaderTargetError string
  | TypeError
  | ValueError
  | KeyError
  | NotImplementedError
  | ExternalToolFailure

text \<open>
  A value a method may return where the source returns either text or a number
  (\<open>get_volume_mbsize\<close>).
\<close>

datatype pyval = PyInt int | PyStr string

subsection \<open>String primitives\<close>

text \<open>\<open>sub in s\<close> on text: \<open>sub\<close> occurs in \<open>s\<close> as a contiguous run.\<close>

fun str_contains :: "string \<Rightarrow> string \<Rightarrow> bool" where
  "str_contains sub [] = (sub = [])"
| "str_contains sub (c # cs) = (prefix sub (c # cs) \<or> str_contains sub cs)"

text \<open>
  \<open>s.strip()\<close>: the characters an 8-bit string's \<open>isspace\<close> accepts (space, tab,
  line feed, vertical tab, form feed, carriage return) are removed from both ends.
\<close>

definition is_space :: "char \<Rightarrow> bool" where
  "is_space c = (c \<in> set [CHR '' '', CHR 0x09, CHR 0x0A, CHR 0x0B, CHR 0x0C, CHR 0x0D])"

definition py_strip :: "string \<Rightarrow> string" where
  "py_strip s = rev (dropWhile is_space (rev (dropWhile is_space s)))"

text \<open>
  \<open>s.split(c)\<close> for a one-character separator: every occurrence of \<open>c\<close> ends a piece,
  empty pieces are kept, and the empty text splits into one empty piece.
\<close>

fun split_str :: "char \<Rightarrow> string \<Rightarrow> string list" where
  "split_str c [] = [[]]"
| "split_str c (x # xs) =
     (if x = c then [] # split_str c xs
      else (case split_str c xs of
              [] \<Rightarrow> [[x]]
            | w # ws \<Rightarrow> (x # w) # ws))"

section \<open>The appliance descriptor\<close>

text \<open>
  A volume as \<open>XMLState.get_volumes()\<close> hands it over: a named tuple. The field
  \<open>size\<close> of the source is \<open>size_spec\<close> here, its text being \<open><type>:<value>\<close>.
\<close>

record volume =
  name :: string
  realpath :: string
  size_spec :: string
  fullsize :: bool
  attributes :: "string list"

text \<open>
  The build-type section with the getters the modelled code calls; an absent attribute
  is \<open>None\<close>, as the generated XML binding returns it.
\<close>

record build_type =
  get_filesystem :: "string option"
  get_firmware :: "string option"
  get_kernelcmdline :: "string option"
  get_boottimeout :: "int option"

record xml_state =
  xml_build_type :: build_type
  get_volumes :: "volume list"

section \<open>BootLoaderConfigBase\<close>

text \<open>
  \<open>get_boot_timeout_seconds\<close>: \<open>not timeout_seconds\<close> holds for \<open>None\<close> and for the
  number \<open>0\<close>.
\<close>

definition get_boot_timeout_seconds :: "xml_state \<Rightarrow> int" where
  "get_boot_timeout_seconds st =
     (case get_boottimeout (xml_build_type st) of
        None \<Rightarrow> 10
      | Some timeout_seconds \<Rightarrow> (if timeout_seconds = 0 then 10 else timeout_seconds))"

text \<open>
  \<open>__get_root_cmdline_parameter\<close>: the substring test \<open>'root=' in cmdline\<close> is evaluated
  first, on whatever \<open>get_kernelcmdline()\<close> returned; on \<open>None\<close> Python raises
  \<open>TypeError\<close>. A branch without \<open>return\<close> yields \<open>None\<close>. The \<open>log.info\<close> calls
  have no effect on the result and are left out.
\<close>

definition get_root_cmdline_parameter :: "xml_state \<Rightarrow> kiwi_error + string option" where
  "get_root_cmdline_parameter st =
     (let firmware = get_firmware (xml_build_type st) in
      case get_kernelcmdline (xml_build_type st) of
        None \<Rightarrow> Inl TypeError
      | Some cmdline \<Rightarrow>
          if str_contains ''root='' cmdline then Inr None
          else if firmware = Some ''ec2'' then Inr (Some ''root=/dev/sda1'')
          else if firmware = Some ''ec2hvm'' then Inr (Some ''root=/dev/hda1'')
          else Inr None)"

text \<open>Truth value of an optional text: \<open>None\<close> and the empty text are false.\<close>

fun truthy :: "string option \<Rightarrow> bool" where
  "truthy None = False"
| "truthy (Some s) = (s \<noteq> [])"

definition get_boot_cmdline :: "xml_state \<Rightarrow> kiwi_error + string" where
  "get_boot_cmdline st =
     (let cmdline = [];
          custom_cmdline = get_kernelcmdline (xml_build_type st);
          cmdline = (if truthy custom_cmdline
                     then cmdline @ '' '' @ the custom_cmdline else cmdline)
      in case get_root_cmdline_parameter st of
           Inl e \<Rightarrow> Inl e
         | Inr custom_root \<Rightarrow>
             Inr (py_strip (if truthy custom_root
                            then cmdline @ '' '' @ the custom_root else cmdline)))"

text \<open>
  \<open>get_boot_path\<close>. \<open>DiskSetup(xml_state, root_dir).need_boot_partition()\<close> belongs to
  a module outside the modelled sources and is the parameter \<open>need_boot_partition\<close>.
  A list is true when it is not empty.
\<close>

definition get_boot_path ::
  "(xml_state \<Rightarrow> string \<Rightarrow> bool) \<Rightarrow> xml_state \<Rightarrow> string \<Rightarrow> string \<Rightarrow> kiwi_error + string"
where
  "get_boot_path need_boot_partition st root_dir target =
     (if target \<noteq> ''disk'' \<and> target \<noteq> ''iso''
      then Inl (KiwiBootLoaderTargetError (''Invalid boot loader target '' @ target))
      else
        let bootpath = ''/boot'';
            need_boot = (if target = ''disk'' then need_boot_partition st root_dir else False);
            bootpath = (if target = ''disk'' \<and> need_boot then ''/'' else bootpath);
            bootpath =
              (if target = ''disk'' \<and> \<not> need_boot
                  \<and> get_filesystem (xml_build_type st) = Some ''btrfs''
                  \<and> get_volumes st \<noteq> []
               then ''/@'' @ bootpath else bootpath)
        in Inr bootpath)"

section \<open>VolumeManagerBase\<close>

subsection \<open>Canonical volume list\<close>

text \<open>
  The named tuple \<open>canonical_volume_type\<close> that \<open>get_canonical_volume_list\<close> returns.
\<close>

record canonical_volume_type =
  volumes :: "volume list"
  full_size_volume :: "volume option"

text \<open>
  The first loop of \<open>get_canonical_volume_list\<close>, threading the dictionary
  \<open>volume_paths\<close> (an association list; assigning to a present key replaces its value)
  and \<open>full_size_volume\<close>. A text is true when it is not empty.
\<close>

fun collect_volumes ::
  "volume list \<Rightarrow> (string \<times> volume) list \<times> volume option
     \<Rightarrow> (string \<times> volume) list \<times> volume option"
where
  "collect_volumes [] st = st"
| "collect_volumes (v # vs) (volume_paths, full_size) =
     collect_volumes vs
       (if fullsize v then (volume_paths, Some v)
        else if realpath v \<noteq> [] then (AList.update (realpath v) v volume_paths, full_size)
        else (volume_paths, full_size))"

text \<open>
  The second loop: \<open>volume_list.append(volume_paths[realpath])\<close> for every path handed
  back by the sorter; a path that is no key raises \<open>KeyError\<close>.
\<close>

fun lookup_volumes :: "(string \<times> volume) list \<Rightarrow> string list \<Rightarrow> kiwi_error + volume list" where
  "lookup_volumes volume_paths [] = Inr []"
| "lookup_volumes volume_paths (p # ps) =
     (case map_of volume_paths p of
        None \<Rightarrow> Inl KeyError
      | Some v \<Rightarrow>
          (case lookup_volumes volume_paths ps of
             Inl e \<Rightarrow> Inl e
           | Inr vs \<Rightarrow> Inr (v # vs)))"

text \<open>
  \<open>get_canonical_volume_list\<close>. \<open>Path.sort_by_hierarchy\<close> lives in a module outside the
  modelled sources and is the parameter \<open>sort_by_hierarchy\<close>; \<open>sorted(...)\<close> on texts
  is the lexicographic order on character codes.
\<close>

definition get_canonical_volume_list ::
  "(string list \<Rightarrow> string list) \<Rightarrow> volume list \<Rightarrow> kiwi_error + canonical_volume_type"
where
  "get_canonical_volume_list sort_by_hierarchy vols =
     (case collect_volumes vols ([], None) of
        (volume_paths, full_size) \<Rightarrow>
          (case lookup_volumes volume_paths (sort_by_hierarchy (sort (map fst volume_paths))) of
             Inl e \<Rightarrow> Inl e
           | Inr volume_list \<Rightarrow>
               Inr \<lparr>volumes = volume_list, full_size_volume = full_size\<rparr>))"

text \<open>
  Modelled from the spec: \<open>PathUtility.sort_by_hierarchy\<close> (\<open>kiwi.path.Path\<close>), whose code
  is not among the sources. The spec calls it hierarchy-aware path sorting that returns
  an ancestor-first ordering, a rule that stabilizes the lexicographic order, and leaves
  open only the order of paths of equal depth. It is taken as the stable sort by depth,
  the depth of a path being the number of its \<open>/\<close>-separated elements.
\<close>

definition path_depth :: "string \<Rightarrow> nat" where
  "path_depth p = length (split_str CHR ''/'' p)"

definition sort_by_hierarchy :: "string list \<Rightarrow> string list" where
  "sort_by_hierarchy path_list = sort_key path_depth path_list"

text \<open>
  The path hierarchy: \<open>q\<close> lies below \<open>p\<close> when it continues \<open>p\<close> behind a separator;
  everything else that starts with the separator lies below the root \<open>/\<close>.
\<close>

definition path_below :: "string \<Rightarrow> string \<Rightarrow> bool" where
  "path_below q p =
     (if p = ''/'' then strict_prefix p q else strict_prefix (p @ ''/'') q)"

subsection \<open>Volume size\<close>

text \<open>
  The collaborators of \<open>get_volume_mbsize\<close> that are not part of the class:
  \<open>os.path.normpath\<close>, the built-in \<open>int\<close> on a text (\<open>None\<close> when it raises
  \<open>ValueError\<close>), \<open>Defaults.get_min_volume_mbytes()\<close>, and the two methods of
  \<open>SystemSize(source_dir)\<close>, each given its \<open>source_dir\<close> first. The measurement
  \<open>accumulate_mbyte_file_sizes\<close> returns is only handed on to \<open>customize\<close>, so its type
  is left open.
\<close>

record 'm size_env =
  normpath :: "string \<Rightarrow> string"
  py_int :: "string \<Rightarrow> int option"
  get_min_volume_mbytes :: int
  accumulate_mbyte_file_sizes :: "string \<Rightarrow> string list \<Rightarrow> kiwi_error + 'm"
  customize :: "string \<Rightarrow> 'm \<Rightarrow> string \<Rightarrow> kiwi_error + int"

text \<open>
  The loop that fills \<open>exclude_paths\<close>; \<open>volume_path.startswith(lookup_path)\<close> is the
  prefix test on texts, \<open>os.sep\<close> is \<open>/\<close>.
\<close>

fun exclude_paths :: "'m size_env \<Rightarrow> string \<Rightarrow> string \<Rightarrow> volume list \<Rightarrow> string list" where
  "exclude_paths env root_dir lookup_path [] = []"
| "exclude_paths env root_dir lookup_path (v # all_volumes) =
     (let volume_path = realpath v;
          rest = exclude_paths env root_dir lookup_path all_volumes
      in if lookup_path = volume_path then rest
         else if lookup_path = ''/''
           then normpath env (root_dir @ ''/'' @ volume_path) # rest
         else if prefix lookup_path volume_path
           then normpath env (root_dir @ ''/'' @ volume_path) # rest
         else rest)"

text \<open>\<open>int(mbsize)\<close>: the identity on a number, the parser on a text.\<close>

fun int_of_pyval :: "'m size_env \<Rightarrow> pyval \<Rightarrow> int option" where
  "int_of_pyval env (PyInt n) = Some n"
| "int_of_pyval env (PyStr s) = py_int env s"

text \<open>
  \<open>get_volume_mbsize\<close>. Unpacking \<open>volume.size.split(':')\<close> into two names raises
  \<open>ValueError\<close> unless the split has exactly two pieces. \<open>mbsize\<close> is the text of the
  second piece until it is overwritten with the number \<open>0\<close> (image type \<open>oem\<close>) or
  converted in the freespace branch.
\<close>

definition get_volume_mbsize ::
  "'m size_env \<Rightarrow> string \<Rightarrow> volume \<Rightarrow> volume list \<Rightarrow> string \<Rightarrow> string option
     \<Rightarrow> kiwi_error + pyval"
where
  "get_volume_mbsize env root_dir vol all_volumes filesystem_name image_type =
     (case split_str CHR '':'' (size_spec vol) of
        [size_type0, mbsize0] \<Rightarrow>
          (let lookup_path = realpath vol;
               oem = (truthy image_type \<and> image_type = Some ''oem'');
               size_type = (if oem then ''freespace'' else size_type0);
               mbsize = (if oem then PyInt 0 else PyStr mbsize0)
           in if size_type = ''freespace'' then
                (let excluded = exclude_paths env root_dir lookup_path all_volumes;
                     volume_size = normpath env (root_dir @ ''/'' @ lookup_path)
                 in case int_of_pyval env mbsize of
                      None \<Rightarrow> Inl ValueError
                    | Some n \<Rightarrow>
                        (case accumulate_mbyte_file_sizes env volume_size excluded of
                           Inl e \<Rightarrow> Inl e
                         | Inr used \<Rightarrow>
                             (case customize env volume_size used filesystem_name of
                                Inl e \<Rightarrow> Inl e
                              | Inr c \<Rightarrow> Inr (PyInt (n + get_min_volume_mbytes env + c)))))
              else Inr mbsize)
      | _ \<Rightarrow> Inl ValueError)"

subsection \<open>Data sync\<close>

text \<open>
  \<open>sync_data\<close> acts on the system only through its collaborators: the mount check of
  \<open>MountManager(device=None, mountpoint)\<close>, the hooks \<open>mount_volumes\<close> and
  \<open>umount_volumes\<close> a concrete volume manager supplies, and
  \<open>DataSync(root_dir, mountpoint).sync_data(options, exclude)\<close>. They are functions on a
  system state \<open>'w\<close>; each may raise.
\<close>

record 'w volume_backend =
  is_mounted :: "string \<Rightarrow> 'w \<Rightarrow> bool"
  mount_volumes :: "'w \<Rightarrow> kiwi_error + 'w"
  umount_volumes :: "'w \<Rightarrow> kiwi_error + 'w"
  data_sync :: "string \<Rightarrow> string \<Rightarrow> string list \<Rightarrow> string list option \<Rightarrow> 'w \<Rightarrow> kiwi_error + 'w"

definition sync_options :: "string list" where
  "sync_options = [''-a'', ''-H'', ''-X'', ''-A'', ''--one-file-system'']"

definition sync_data ::
  "'w volume_backend \<Rightarrow> string \<Rightarrow> string option \<Rightarrow> string list option \<Rightarrow> 'w \<Rightarrow> kiwi_error + 'w"
where
  "sync_data backend root_dir mountpoint exclude w =
     (if truthy mountpoint then
        (let mp = the mountpoint in
         case (if \<not> is_mounted backend mp w then mount_volumes backend w else Inr w) of
           Inl e \<Rightarrow> Inl e
         | Inr w1 \<Rightarrow>
             (case data_sync backend root_dir mp sync_options exclude w1 of
                Inl e \<Rightarrow> Inl e
              | Inr w2 \<Rightarrow> umount_volumes backend w2))
      else Inr w)"

text \<open>
  The hooks as the base class itself defines them: both raise \<open>NotImplementedError\<close>.
\<close>

definition base_mount_volumes :: "'w \<Rightarrow> kiwi_error + 'w" where
  "base_mount_volumes w = Inl NotImplementedError"

definition base_umount_volumes :: "'w \<Rightarrow> kiwi_error + 'w" where
  "base_umount_volumes w = Inl NotImplementedError"

text \<open>
  A sample system for concrete runs: whether the shared mount root is mounted, and the
  journal of the collaborator calls made so far.
\<close>

datatype sys_call = MountVolumes | UmountVolumes | DataSync string string "string list" "string list option"

record sample_sys =
  mounted :: bool
  journal :: "sys_call list"

definition sample_backend :: "sample_sys volume_backend" where
  "sample_backend =
     \<lparr>is_mounted = (\<lambda>mp w. mounted w),
      mount_volumes = (\<lambda>w. Inr (w\<lparr>mounted := True, journal := journal w @ [MountVolumes]\<rparr>)),
      umount_volumes = (\<lambda>w. Inr (w\<lparr>mounted := False, journal := journal w @ [UmountVolumes]\<rparr>)),
      data_sync = (\<lambda>src dst opts excl w.
         Inr (w\<lparr>journal := journal w @ [DataSync src dst opts excl]\<rparr>))\<rparr>"

subsection \<open>Sample data for concrete runs\<close>

text \<open>The constructor of the volume tuple with no attributes.\<close>

definition volume_type :: "string \<Rightarrow> string \<Rightarrow> string \<Rightarrow> bool \<Rightarrow> volume" where
  "volume_type n p s f =
     \<lparr>name = n, realpath = p, size_spec = s, fullsize = f, attributes = []\<rparr>"

text \<open>
  A sample environment: paths are normalised by squeezing repeated separators (enough
  for absolute paths without \<open>.\<close> and \<open>..\<close> elements), \<open>int\<close> reads unsigned decimal
  digits, the minimum volume size is 30, every excluded path takes 10 off a usage of
  100, and btrfs costs half as much again.
\<close>

fun squeeze_sep :: "string \<Rightarrow> string" where
  "squeeze_sep (a # b # s) =
     (if a = CHR ''/'' \<and> b = CHR ''/'' then squeeze_sep (b # s) else a # squeeze_sep (b # s))"
| "squeeze_sep s = s"

definition digits_int :: "string \<Rightarrow> int option" where
  "digits_int s =
     (if s \<noteq> [] \<and> list_all (\<lambda>c. c \<in> set ''0123456789'') s
      then Some (foldl (\<lambda>n c. 10 * n + (of_char c - 48)) 0 s) else None)"

definition sample_env :: "int size_env" where
  "sample_env =
     \<lparr>normpath = squeeze_sep,
      py_int = digits_int,
      get_min_volume_mbytes = 30,
      accumulate_mbyte_file_sizes = (\<lambda>source_dir excluded. Inr (100 - 10 * int (length excluded))),
      customize = (\<lambda>source_dir used fs. Inr (if fs = ''btrfs'' then used * 3 div 2 else used))\<rparr>"

section \<open>Properties of BootLoaderConfigBase\<close>

lemma py_strip_leading_space: "py_strip (CHR '' '' # s) = py_strip s"
  by (simp add: py_strip_def is_space_def)

text \<open>
  C2: \<open>get_boot_path\<close> returns \<open>/boot\<close> for target \<open>iso\<close>; for target \<open>disk\<close> it
  returns \<open>/\<close> when a boot partition is needed, \<open>/@/boot\<close> when none is needed, the
  filesystem is btrfs and at least one volume is configured, and \<open>/boot\<close> otherwise;
  every other target fails with the boot loader target error.
\<close>

theorem get_boot_path_cases:
  "get_boot_path nbp st root_dir target =
     (if target = ''iso'' then Inr ''/boot''
      else if target = ''disk'' then
        (if nbp st root_dir then Inr ''/''
         else if get_filesystem (xml_build_type st) = Some ''btrfs'' \<and> get_volumes st \<noteq> []
           then Inr ''/@/boot''
         else Inr ''/boot'')
      else Inl (KiwiBootLoaderTargetError (''Invalid boot loader target '' @ target)))"
  by (simp add: get_boot_path_def Let_def)

theorem get_boot_path_cases_witness:
  "get_boot_path (\<lambda>st r. False)
       \<lparr>xml_build_type = \<lparr>get_filesystem = Some ''btrfs'', get_firmware = None,
           get_kernelcmdline = None, get_boottimeout = None\<rparr>,
        get_volumes = [\<lparr>name = ''LVRoot'', realpath = ''/'', size_spec = ''freespace:100'',
           fullsize = False, attributes = []\<rparr>]\<rparr> ''/tmp/root'' ''disk'' = Inr ''/@/boot''
   \<and> get_boot_path (\<lambda>st r. True)
       \<lparr>xml_build_type = \<lparr>get_filesystem = Some ''btrfs'', get_firmware = None,
           get_kernelcmdline = None, get_boottimeout = None\<rparr>,
        get_volumes = []\<rparr> ''/tmp/root'' ''usb''
       = Inl (KiwiBootLoaderTargetError ''Invalid boot loader target usb'')"
  by (simp add: get_boot_path_cases)

text \<open>
  C3: with a custom kernel command line \<open>s\<close> configured, \<open>get_boot_cmdline\<close> returns
  \<open>s\<close> trimmed when \<open>s\<close> contains \<open>root=\<close>; otherwise it returns, trimmed, \<open>s\<close> with
  \<open>root=/dev/sda1\<close> appended for firmware \<open>ec2\<close>, with \<open>root=/dev/hda1\<close> appended for
  firmware \<open>ec2hvm\<close>, and \<open>s\<close> alone for every other firmware.
\<close>

theorem get_boot_cmdline_root:
  assumes "get_kernelcmdline (xml_build_type st) = Some s"
  shows "get_boot_cmdline st =
     Inr (if str_contains ''root='' s then py_strip s
          else if get_firmware (xml_build_type st) = Some ''ec2''
            then py_strip (s @ '' root=/dev/sda1'')
          else if get_firmware (xml_build_type st) = Some ''ec2hvm''
            then py_strip (s @ '' root=/dev/hda1'')
          else py_strip s)"
proof (cases "s = []")
  case True
  with assms show ?thesis
    by (simp add: get_boot_cmdline_def get_root_cmdline_parameter_def Let_def)
next
  case False
  with assms show ?thesis
    by (simp add: get_boot_cmdline_def get_root_cmdline_parameter_def Let_def
        py_strip_leading_space)
qed

theorem get_boot_cmdline_root_witness:
  "get_boot_cmdline \<lparr>xml_build_type = \<lparr>get_filesystem = None, get_firmware = Some ''ec2'',
           get_kernelcmdline = Some ''splash quiet '', get_boottimeout = None\<rparr>,
        get_volumes = []\<rparr> = Inr ''splash quiet  root=/dev/sda1''"
  using get_boot_cmdline_root [of "\<lparr>xml_build_type = \<lparr>get_filesystem = None,
           get_firmware = Some ''ec2'',
           get_kernelcmdline = Some ''splash quiet '', get_boottimeout = None\<rparr>,
        get_volumes = []\<rparr>" "''splash quiet ''"]
  by (simp add: py_strip_def is_space_def)

text \<open>
  C4 (the code at the input the claim names): with no custom kernel command line
  configured, \<open>get_kernelcmdline()\<close> is \<open>None\<close>, the substring test raises, and
  \<open>get_boot_cmdline\<close> ends in \<open>TypeError\<close> whatever the rest of the descriptor holds.
\<close>

theorem get_boot_cmdline_absent:
  "get_boot_cmdline (st\<lparr>xml_build_type := (xml_build_type st)\<lparr>get_kernelcmdline := None\<rparr>\<rparr>)
     = Inl TypeError"
  by (simp add: get_boot_cmdline_def get_root_cmdline_parameter_def)

text \<open>
  C10 (the code at a configured timeout of zero): \<open>get_boot_timeout_seconds\<close> returns
  \<open>10\<close>, not the configured \<open>0\<close>.
\<close>

theorem get_boot_timeout_seconds_zero:
  "get_boot_timeout_seconds
     (st\<lparr>xml_build_type := (xml_build_type st)\<lparr>get_boottimeout := Some 0\<rparr>\<rparr>) = 10"
  by (simp add: get_boot_timeout_seconds_def)

section \<open>Properties of VolumeManagerBase\<close>

subsection \<open>Size specs\<close>

lemma split_str_no_sep: "c \<notin> set s \<Longrightarrow> split_str c s = [s]"
  by (induction s) auto

lemma split_str_one_sep:
  "c \<notin> set t \<Longrightarrow> split_str c (t @ c # m) = t # split_str c m"
  by (induction t) auto

lemma split_size_spec:
  "CHR '':'' \<notin> set t \<Longrightarrow> CHR '':'' \<notin> set m \<Longrightarrow> split_str CHR '':'' (t @ CHR '':'' # m) = [t, m]"
  by (simp add: split_str_one_sep split_str_no_sep)

text \<open>
  What the loop of the freespace branch collects: every volume with another realpath
  that starts with the sized volume's realpath as a text, or every other volume when
  the sized volume is the root.
\<close>

lemma exclude_paths_filter:
  "exclude_paths env root_dir lookup_path all_volumes =
     map (\<lambda>v. normpath env (root_dir @ ''/'' @ realpath v))
       (filter (\<lambda>v. realpath v \<noteq> lookup_path
                  \<and> (lookup_path = ''/'' \<or> prefix lookup_path (realpath v))) all_volumes)"
  by (induction all_volumes) (auto simp: Let_def)

text \<open>
  Outside the freespace branch the value piece of the split is handed back as it is.
\<close>

lemma get_volume_mbsize_fixed:
  assumes "size_spec vol = t @ CHR '':'' # m" "CHR '':'' \<notin> set t" "CHR '':'' \<notin> set m"
    and "t \<noteq> ''freespace''" and "image_type \<noteq> Some ''oem''"
  shows "get_volume_mbsize env root_dir vol all_volumes filesystem_name image_type = Inr (PyStr m)"
  using assms by (simp add: get_volume_mbsize_def split_size_spec Let_def)

text \<open>
  C9 (the code at a fixed size spec): for the volume \<open>/home\<close> declared \<open>size:500\<close> and an
  image type that is not \<open>oem\<close>, \<open>get_volume_mbsize\<close> returns the text \<open>500\<close> as the
  split left it, which is not the number 500.
\<close>

theorem get_volume_mbsize_fixed_returns_text:
  "get_volume_mbsize env root_dir (volume_type ''home'' ''/home'' ''size:500'' False)
     all_volumes filesystem_name None = Inr (PyStr ''500'')
   \<and> get_volume_mbsize env root_dir (volume_type ''home'' ''/home'' ''size:500'' False)
     all_volumes filesystem_name None \<noteq> Inr (PyInt 500)"
  by (simp add: get_volume_mbsize_def volume_type_def)

text \<open>
  C1 (the code at a volume with a string-prefix sibling): sizing \<open>/var\<close> among the volumes
  \<open>/var\<close>, \<open>/var2\<close> and \<open>/var/log\<close>, the exclude list holds the normalised path of
  \<open>/var2\<close> beside that of \<open>/var/log\<close>, although \<open>/var2\<close> does not lie below \<open>/var\<close>.
\<close>

theorem exclude_paths_prefix_sibling:
  "exclude_paths env root_dir ''/var''
     [volume_type ''var'' ''/var'' ''freespace:100'' False,
      volume_type ''var2'' ''/var2'' ''size:200'' False,
      volume_type ''var_log'' ''/var/log'' ''size:300'' False]
     = [normpath env (root_dir @ ''//var2''), normpath env (root_dir @ ''//var/log'')]
   \<and> \<not> path_below ''/var2'' ''/var'' \<and> path_below ''/var/log'' ''/var''"
  by (simp add: path_below_def volume_type_def Let_def)

text \<open>
  C6: for a size spec of the form \<open><type>:<value>\<close> and image type \<open>oem\<close>,
  \<open>get_volume_mbsize\<close> is the freespace computation with extra value zero: the minimum
  volume size plus what \<open>customize\<close> makes of the measured usage for the filesystem (the
  usage with the filesystem's overhead), and a failure of either collaborator. Neither
  the declared type nor the declared value occurs in the result.
\<close>

theorem get_volume_mbsize_oem:
  assumes "size_spec vol = t @ CHR '':'' # m" "CHR '':'' \<notin> set t" "CHR '':'' \<notin> set m"
  shows "get_volume_mbsize env root_dir vol all_volumes filesystem_name (Some ''oem'') =
     (case accumulate_mbyte_file_sizes env (normpath env (root_dir @ ''/'' @ realpath vol))
             (exclude_paths env root_dir (realpath vol) all_volumes) of
        Inl e \<Rightarrow> Inl e
      | Inr used \<Rightarrow>
          (case customize env (normpath env (root_dir @ ''/'' @ realpath vol)) used
                  filesystem_name of
             Inl e \<Rightarrow> Inl e
           | Inr c \<Rightarrow> Inr (PyInt (get_min_volume_mbytes env + c))))"
  using assms
  by (simp add: get_volume_mbsize_def split_size_spec Let_def split: sum.splits)

theorem get_volume_mbsize_oem_witness:
  "get_volume_mbsize sample_env ''/tmp/root'' (volume_type ''home'' ''/home'' ''size:500'' False)
     [volume_type ''home'' ''/home'' ''size:500'' False,
      volume_type ''home_data'' ''/home/data'' ''freespace:20'' False]
     ''btrfs'' (Some ''oem'') = Inr (PyInt 165)"
proof -
  have "size_spec (volume_type ''home'' ''/home'' ''size:500'' False) = ''size'' @ CHR '':'' # ''500''"
    by (simp add: volume_type_def)
  from get_volume_mbsize_oem [OF this, of sample_env "''/tmp/root''" _ "''btrfs''"]
  show ?thesis
    by (simp add: sample_env_def volume_type_def Let_def)
qed

subsection \<open>Data sync\<close>

text \<open>
  With the hooks of the base class itself, a call that has to mount cannot complete.
\<close>

lemma sync_data_base_hooks:
  assumes "mp \<noteq> []" and "\<not> is_mounted backend mp w"
    and "mount_volumes backend = base_mount_volumes"
  shows "sync_data backend root_dir (Some mp) exclude w = Inl NotImplementedError"
  using assms by (simp add: sync_data_def base_mount_volumes_def)

text \<open>
  C7: with a shared mount root set up and an unmount hook that leaves the mount root
  unmounted, a \<open>sync_data\<close> call that completes ends with the mount root unmounted, and
  it got there by mounting the volumes if and only if they were not mounted, then
  copying with the fixed options and the given exclude list, then unmounting.
\<close>

theorem sync_data_unmounted:
  assumes "mountpoint = Some mp" and "mp \<noteq> []"
    and "\<And>u u'. umount_volumes backend u = Inr u' \<Longrightarrow> \<not> is_mounted backend mp u'"
    and "sync_data backend root_dir mountpoint exclude w = Inr w'"
  shows "\<not> is_mounted backend mp w' \<and>
     (\<exists>w1 w2. (if is_mounted backend mp w then w1 = w else mount_volumes backend w = Inr w1)
        \<and> data_sync backend root_dir mp sync_options exclude w1 = Inr w2
        \<and> umount_volumes backend w2 = Inr w')"
  using assms
  by (auto simp add: sync_data_def Let_def split: sum.splits if_splits)

theorem sync_data_unmounted_witness:
  "sync_data sample_backend ''/tmp/root'' (Some ''/tmp/kiwi_volumes.a'') (Some [''image''])
       \<lparr>mounted = False, journal = []\<rparr>
     = Inr \<lparr>mounted = False,
            journal = [MountVolumes,
              DataSync ''/tmp/root'' ''/tmp/kiwi_volumes.a''
                [''-a'', ''-H'', ''-X'', ''-A'', ''--one-file-system''] (Some [''image'']),
              UmountVolumes]\<rparr>
   \<and> \<not> is_mounted sample_backend ''/tmp/kiwi_volumes.a''
       \<lparr>mounted = False,
        journal = [MountVolumes,
              DataSync ''/tmp/root'' ''/tmp/kiwi_volumes.a''
                [''-a'', ''-H'', ''-X'', ''-A'', ''--one-file-system''] (Some [''image'']),
              UmountVolumes]\<rparr>"
proof -
  let ?w' = "\<lparr>mounted = False,
        journal = [MountVolumes,
              DataSync ''/tmp/root'' ''/tmp/kiwi_volumes.a''
                [''-a'', ''-H'', ''-X'', ''-A'', ''--one-file-system''] (Some [''image'']),
              UmountVolumes]\<rparr>"
  have run: "sync_data sample_backend ''/tmp/root'' (Some ''/tmp/kiwi_volumes.a'')
      (Some [''image'']) \<lparr>mounted = False, journal = []\<rparr> = Inr ?w'"
    by (simp add: sync_data_def sample_backend_def sync_options_def)
  have hook: "\<not> is_mounted sample_backend ''/tmp/kiwi_volumes.a'' u'"
    if "umount_volumes sample_backend u = Inr u'" for u u'
    using that by (auto simp add: sample_backend_def)
  from sync_data_unmounted [OF refl _ hook run]
  have "\<not> is_mounted sample_backend ''/tmp/kiwi_volumes.a'' ?w'" by simp
  with run show ?thesis by (rule conjI)
qed

subsection \<open>Canonical volume list\<close>

lemma update_entries: "set (AList.update k v al) \<subseteq> insert (k, v) (set al)"
  by (induction al) auto

lemma collect_volumes_full_size:
  "snd (collect_volumes vs (al, f)) =
     (if filter fullsize vs = [] then f else Some (last (filter fullsize vs)))"
  by (induction vs arbitrary: al f) auto

lemma collect_volumes_entries:
  "(p, v) \<in> set (fst (collect_volumes vs (al, f))) \<Longrightarrow>
     (p, v) \<in> set al \<or> (v \<in> set vs \<and> \<not> fullsize v \<and> realpath v = p \<and> p \<noteq> [])"
proof (induction vs arbitrary: al f)
  case Nil
  then show ?case by simp
next
  case (Cons x xs)
  show ?case
  proof (cases "fullsize x")
    case True
    with Cons.prems have "(p, v) \<in> set (fst (collect_volumes xs (al, Some x)))" by simp
    from Cons.IH [OF this] show ?thesis by auto
  next
    case False
    show ?thesis
    proof (cases "realpath x = []")
      case True
      with False Cons.prems have "(p, v) \<in> set (fst (collect_volumes xs (al, f)))" by simp
      from Cons.IH [OF this] show ?thesis by auto
    next
      case nonempty: False
      with False Cons.prems
      have "(p, v) \<in> set (fst (collect_volumes xs (AList.update (realpath x) x al, f)))"
        by simp
      from Cons.IH [OF this] update_entries [of "realpath x" x al] False nonempty
      show ?thesis by auto
    qed
  qed
qed

lemma lookup_volumes_values:
  "lookup_volumes al ps = Inr vl \<Longrightarrow> set vl \<subseteq> snd ` set al"
proof (induction ps arbitrary: vl)
  case Nil
  then show ?case by simp
next
  case (Cons p ps)
  from Cons.prems obtain v vs where
    v: "map_of al p = Some v" and vs: "lookup_volumes al ps = Inr vs" and vl: "vl = v # vs"
    by (auto split: option.splits sum.splits)
  from v have "(p, v) \<in> set al" by (rule map_of_SomeD)
  then have "v \<in> snd ` set al" by force
  with Cons.IH [OF vs] vl show ?case by simp
qed

lemma lookup_volumes_total:
  "set ps \<subseteq> fst ` set al \<Longrightarrow> lookup_volumes al ps = Inr (map (\<lambda>p. the (map_of al p)) ps)"
proof (induction ps)
  case Nil
  then show ?case by simp
next
  case (Cons p ps)
  then have "p \<in> fst ` set al" by simp
  then obtain v where "map_of al p = Some v"
    by (metis domD dom_map_of_conv_image_fst)
  with Cons show ?case by simp
qed

text \<open>
  C8: when the volumes flagged fullsize are \<open>earlier\<close> followed by \<open>lastv\<close>, with
  \<open>earlier\<close> not empty, \<open>get_canonical_volume_list\<close> returns \<open>lastv\<close> as the fullsize
  volume, and no volume of \<open>earlier\<close> is the fullsize result or a member of the
  ordered list. The volumes are pairwise different and the sorter hands back only paths
  it was given.
\<close>

theorem several_fullsize_last_wins:
  assumes "distinct vols"
    and "filter fullsize vols = earlier @ [lastv]"
    and "earlier \<noteq> []"
    and "\<And>ks. set (sbh ks) \<subseteq> set ks"
  shows "\<exists>r. get_canonical_volume_list sbh vols = Inr r
     \<and> full_size_volume r = Some lastv
     \<and> (\<forall>e \<in> set earlier. e \<in> set vols \<and> fullsize e \<and> e \<noteq> lastv \<and> e \<notin> set (volumes r))"
proof -
  obtain al f where c: "collect_volumes vols ([], None) = (al, f)"
    by (cases "collect_volumes vols ([], None)")
  have f: "f = Some lastv"
    using collect_volumes_full_size [of vols "[]" None] c assms(2) by simp
  have "set (sbh (sort (map fst al))) \<subseteq> fst ` set al"
    using assms(4) [of "sort (map fst al)"] by simp
  from lookup_volumes_total [OF this]
  obtain vl where vl: "lookup_volumes al (sbh (sort (map fst al))) = Inr vl" by blast
  have r: "get_canonical_volume_list sbh vols = Inr \<lparr>volumes = vl, full_size_volume = f\<rparr>"
    by (simp add: get_canonical_volume_list_def c vl)
  have nofull: "\<not> fullsize v" if "v \<in> set vl" for v
  proof -
    from that lookup_volumes_values [OF vl] obtain p where "(p, v) \<in> set al" by auto
    with collect_volumes_entries [of p v vols "[]" None] c show ?thesis by simp
  qed
  have "distinct (filter fullsize vols)" using assms(1) by simp
  then have d: "distinct (earlier @ [lastv])" by (simp only: assms(2))
  have "e \<in> set vols \<and> fullsize e \<and> e \<noteq> lastv \<and> e \<notin> set vl" if e: "e \<in> set earlier" for e
  proof -
    from e have "e \<in> set (filter fullsize vols)" by (simp add: assms(2))
    then have "e \<in> set vols" "fullsize e" by simp_all
    moreover from d e have "e \<noteq> lastv" by auto
    moreover from \<open>fullsize e\<close> nofull have "e \<notin> set vl" by blast
    ultimately show ?thesis by simp
  qed
  with r f show ?thesis by simp
qed

theorem several_fullsize_last_wins_witness:
  "get_canonical_volume_list sort_by_hierarchy
     [volume_type ''LVRoot'' ''/'' ''freespace:500'' True,
      volume_type ''var'' ''/var'' ''size:200'' False,
      volume_type ''home'' ''/home'' ''freespace:100'' True]
     = Inr \<lparr>volumes = [volume_type ''var'' ''/var'' ''size:200'' False],
            full_size_volume = Some (volume_type ''home'' ''/home'' ''freespace:100'' True)\<rparr>"
proof -
  let ?vols = "[volume_type ''LVRoot'' ''/'' ''freespace:500'' True,
      volume_type ''var'' ''/var'' ''size:200'' False,
      volume_type ''home'' ''/home'' ''freespace:100'' True]"
  have d: "distinct ?vols" by (simp add: volume_type_def)
  have f: "filter fullsize ?vols =
      [volume_type ''LVRoot'' ''/'' ''freespace:500'' True]
      @ [volume_type ''home'' ''/home'' ''freespace:100'' True]"
    by (simp add: volume_type_def)
  have s: "set (sort_by_hierarchy ks) \<subseteq> set ks" for ks
    by (simp add: sort_by_hierarchy_def)
  from several_fullsize_last_wins [OF d f _ s]
  obtain r where r: "get_canonical_volume_list sort_by_hierarchy ?vols = Inr r"
    and fs: "full_size_volume r = Some (volume_type ''home'' ''/home'' ''freespace:100'' True)"
    by auto
  have "get_canonical_volume_list sort_by_hierarchy ?vols
      = Inr \<lparr>volumes = [volume_type ''var'' ''/var'' ''size:200'' False],
            full_size_volume = Some (volume_type ''home'' ''/home'' ''freespace:100'' True)\<rparr>"
    by (simp add: get_canonical_volume_list_def sort_by_hierarchy_def volume_type_def)
  with r fs show ?thesis by simp
qed

lemma update_fresh: "k \<notin> fst ` set al \<Longrightarrow> AList.update k v al = al @ [(k, v)]"
  by (induction al) auto

lemma collect_volumes_distinct:
  "distinct (map fst al @ map realpath vs) \<Longrightarrow>
   fst (collect_volumes vs (al, f)) =
     al @ map (\<lambda>v. (realpath v, v)) (filter (\<lambda>v. \<not> fullsize v \<and> realpath v \<noteq> []) vs)"
proof (induction vs arbitrary: al f)
  case Nil
  then show ?case by simp
next
  case (Cons x xs)
  from Cons.prems have d: "distinct (map fst al @ map realpath xs)" by simp
  show ?case
  proof (cases "fullsize x \<or> realpath x = []")
    case True
    with Cons.IH [OF d] show ?thesis by auto
  next
    case False
    from Cons.prems have fresh: "realpath x \<notin> fst ` set al" by auto
    from Cons.prems have "distinct (map fst (al @ [(realpath x, x)]) @ map realpath xs)"
      by auto
    from Cons.IH [OF this] False fresh show ?thesis
      by (simp add: update_fresh)
  qed
qed

lemma map_of_keyed:
  "distinct (map k xs) \<Longrightarrow> x \<in> set xs \<Longrightarrow> map_of (map (\<lambda>v. (k v, v)) xs) (k x) = Some x"
  by (induction xs) (auto simp: rev_image_eqI)

lemma strict_prefix_less:
  fixes p q :: "'a::linorder list"
  shows "strict_prefix p q \<Longrightarrow> p < q"
proof (induction p arbitrary: q)
  case Nil
  then show ?case by (cases q) simp_all
next
  case (Cons a p)
  then show ?case by (cases q) simp_all
qed

lemma length_split_str: "length (split_str c s) = Suc (length (filter (\<lambda>x. x = c) s))"
  by (induction s) (auto split: list.splits)

lemma path_depth_prefix: "prefix p q \<Longrightarrow> path_depth p \<le> path_depth q"
  by (auto simp: path_depth_def length_split_str prefix_def)

lemma path_below_strict_prefix: "path_below q p \<Longrightarrow> strict_prefix p q"
  by (auto simp: path_below_def strict_prefix_def prefix_def split: if_splits)

lemma insort_key_then_by:
  fixes f :: "'a::linorder \<Rightarrow> nat"
  assumes "sorted_wrt (\<lambda>a b. f a < f b \<or> (f a = f b \<and> a \<le> b)) ys"
    and "sorted (map f ys)" and "\<forall>y\<in>set ys. x \<le> y"
  shows "sorted_wrt (\<lambda>a b. f a < f b \<or> (f a = f b \<and> a \<le> b)) (insort_key f x ys)"
  using assms
proof (induction ys)
  case Nil
  then show ?case by simp
next
  case (Cons y ys)
  show ?case
  proof (cases "f x \<le> f y")
    case True
    have "f x < f z \<or> (f x = f z \<and> x \<le> z)" if "z \<in> set (y # ys)" for z
    proof -
      from that Cons.prems(2) have "f y \<le> f z" by auto
      with True have "f x \<le> f z" by simp
      moreover from that Cons.prems(3) have "x \<le> z" by blast
      ultimately show ?thesis by auto
    qed
    with True Cons.prems(1) show ?thesis by simp
  next
    case False
    from Cons.prems have "sorted_wrt (\<lambda>a b. f a < f b \<or> (f a = f b \<and> a \<le> b)) (insort_key f x ys)"
      by (intro Cons.IH) simp_all
    with False Cons.prems(1) show ?thesis
      by (auto simp: set_insort_key)
  qed
qed

lemma sort_key_then_by:
  fixes f :: "'a::linorder \<Rightarrow> nat"
  shows "sorted xs \<Longrightarrow> sorted_wrt (\<lambda>a b. f a < f b \<or> (f a = f b \<and> a \<le> b)) (sort_key f xs)"
proof (induction xs)
  case Nil
  then show ?case by simp
next
  case (Cons x xs)
  then have "sorted_wrt (\<lambda>a b. f a < f b \<or> (f a = f b \<and> a \<le> b)) (sort_key f xs)" by simp
  moreover have "sorted (map f (sort_key f xs))" by (rule sorted_sort_key)
  moreover from Cons.prems have "\<forall>y\<in>set (sort_key f xs). x \<le> y" by simp
  ultimately show ?case by (simp add: insort_key_then_by)
qed

lemma sort_by_hierarchy_ancestors_first:
  assumes "i < length ks" "j < length ks"
    and "strict_prefix (sort_by_hierarchy (sort ks) ! i) (sort_by_hierarchy (sort ks) ! j)"
  shows "i < j"
proof (rule ccontr)
  let ?ys = "sort_by_hierarchy (sort ks)"
  assume "\<not> i < j"
  with assms(3) have ji: "j < i" by (cases "i = j") auto
  have s: "sorted_wrt (\<lambda>a b. path_depth a < path_depth b \<or> (path_depth a = path_depth b \<and> a \<le> b)) ?ys"
    unfolding sort_by_hierarchy_def by (rule sort_key_then_by) simp
  have l: "i < length ?ys" using assms(1) by (simp add: sort_by_hierarchy_def)
  have r: "path_depth (?ys ! j) < path_depth (?ys ! i)
      \<or> (path_depth (?ys ! j) = path_depth (?ys ! i) \<and> ?ys ! j \<le> ?ys ! i)"
    by (rule sorted_wrt_nth_less [OF s ji l])
  from assms(3) have "path_depth (?ys ! i) \<le> path_depth (?ys ! j)"
    by (simp add: path_depth_prefix strict_prefix_def)
  moreover from assms(3) have "?ys ! i < ?ys ! j" by (rule strict_prefix_less)
  ultimately show False using r by auto
qed

lemma mset_sort_by_hierarchy: "mset (sort_by_hierarchy ks) = mset ks"
  by (simp add: sort_by_hierarchy_def)

text \<open>
  C5: for volumes with pairwise different, non-empty realpaths,
  \<open>get_canonical_volume_list\<close> (with the hierarchy sort modelled above) returns an
  ordered list that holds exactly the volumes not flagged fullsize, each once, and
  separately the fullsize volume: none when no volume is flagged, else the last one
  flagged, which is never in the ordered list. The realpaths of the ordered list are the
  lexicographically sorted realpaths put through the hierarchy sort, and every volume
  stands before all volumes whose realpath lies below its own.
\<close>

theorem canonical_volume_list_partition:
  assumes "distinct (map realpath vols)" and "\<forall>v\<in>set vols. realpath v \<noteq> []"
  shows "\<exists>r. get_canonical_volume_list sort_by_hierarchy vols = Inr r
     \<and> mset (volumes r) = mset (filter (\<lambda>v. \<not> fullsize v) vols)
     \<and> full_size_volume r =
         (if filter fullsize vols = [] then None else Some (last (filter fullsize vols)))
     \<and> (\<forall>v. full_size_volume r = Some v \<longrightarrow> v \<notin> set (volumes r))
     \<and> map realpath (volumes r) =
         sort_by_hierarchy (sort (map realpath (filter (\<lambda>v. \<not> fullsize v) vols)))
     \<and> (\<forall>i j. i < length (volumes r) \<and> j < length (volumes r)
            \<and> path_below (realpath (volumes r ! j)) (realpath (volumes r ! i)) \<longrightarrow> i < j)"
proof -
  let ?nf = "filter (\<lambda>v. \<not> fullsize v) vols"
  let ?al = "map (\<lambda>v. (realpath v, v)) ?nf"
  let ?ks = "sort_by_hierarchy (sort (map realpath ?nf))"
  let ?g = "\<lambda>p. the (map_of ?al p)"
  let ?f = "if filter fullsize vols = [] then None else Some (last (filter fullsize vols))"
  have same: "filter (\<lambda>v. \<not> fullsize v \<and> realpath v \<noteq> []) vols = ?nf"
    using assms(2) by (auto intro: filter_cong)
  have "fst (collect_volumes vols ([], None)) = ?al"
    using collect_volumes_distinct [of "[]" vols None] assms(1) by (simp add: same)
  moreover have "snd (collect_volumes vols ([], None)) = ?f"
    by (simp add: collect_volumes_full_size)
  ultimately have c: "collect_volumes vols ([], None) = (?al, ?f)"
    by (simp add: prod_eq_iff)
  have keys: "map fst ?al = map realpath ?nf" by (simp add: comp_def)
  have setks: "set ?ks = realpath ` set ?nf"
    by (simp add: sort_by_hierarchy_def)
  then have "set ?ks \<subseteq> fst ` set ?al" by force
  from lookup_volumes_total [OF this]
  have l: "lookup_volumes ?al ?ks = Inr (map ?g ?ks)" .
  have r: "get_canonical_volume_list sort_by_hierarchy vols =
      Inr \<lparr>volumes = map ?g ?ks, full_size_volume = ?f\<rparr>"
    unfolding get_canonical_volume_list_def c prod.case keys l by simp
  have dnf: "distinct (map realpath ?nf)"
    using assms(1) by (simp add: distinct_map_filter)
  have g: "?g (realpath v) = v" if "v \<in> set ?nf" for v
    using map_of_keyed [OF dnf that] by simp
  have "mset (map ?g ?ks) = image_mset ?g (mset (map realpath ?nf))"
    by (simp add: mset_sort_by_hierarchy)
  also have "\<dots> = mset (map (\<lambda>v. ?g (realpath v)) ?nf)"
    by (simp add: multiset.map_comp comp_def)
  also have "\<dots> = mset (map (\<lambda>v. v) ?nf)"
    using g by (intro arg_cong [where f = mset] map_cong) auto
  finally have m: "mset (map ?g ?ks) = mset ?nf" by simp
  have paths: "map realpath (map ?g ?ks) = ?ks"
  proof -
    have "realpath (?g p) = p" if "p \<in> set ?ks" for p
    proof -
      from that have "p \<in> realpath ` set ?nf" by (simp only: setks)
      then obtain v where v: "v \<in> set ?nf" and p: "p = realpath v" by (rule imageE)
      from g [OF v] show ?thesis unfolding p by (simp only:)
    qed
    then have "map (\<lambda>p. realpath (?g p)) ?ks = ?ks" by (rule map_idI)
    then show ?thesis by (simp only: map_map comp_def)
  qed
  have nofs: "v \<notin> set (map ?g ?ks)" if "?f = Some v" for v
  proof -
    from that have ne: "filter fullsize vols \<noteq> []" and "v = last (filter fullsize vols)"
      by (simp_all split: if_splits)
    then have "v \<in> set (filter fullsize vols)"
      using last_in_set [OF ne] by simp
    then have "fullsize v" by simp
    then have nin: "v \<notin> set ?nf" by simp
    from m have eq: "set (map ?g ?ks) = set ?nf" by (rule mset_eq_setD)
    show ?thesis unfolding eq by (rule nin)
  qed
  have ord: "i < j"
    if "i < length (map ?g ?ks)" "j < length (map ?g ?ks)"
      "path_below (realpath (map ?g ?ks ! j)) (realpath (map ?g ?ks ! i))" for i j
  proof -
    have len: "length ?ks = length (map realpath ?nf)"
      by (simp add: sort_by_hierarchy_def)
    from that(1,2) have ij: "i < length (map realpath ?nf)" "j < length (map realpath ?nf)"
      by (simp_all add: len)
    from that(1) have "realpath (map ?g ?ks ! i) = map realpath (map ?g ?ks) ! i"
      by (simp del: map_map)
    then have pi: "realpath (map ?g ?ks ! i) = ?ks ! i" by (simp only: paths)
    from that(2) have "realpath (map ?g ?ks ! j) = map realpath (map ?g ?ks) ! j"
      by (simp del: map_map)
    then have pj: "realpath (map ?g ?ks ! j) = ?ks ! j" by (simp only: paths)
    from that(3) have "strict_prefix (?ks ! i) (?ks ! j)"
      unfolding pi pj by (rule path_below_strict_prefix)
    with ij show ?thesis by (rule sort_by_hierarchy_ancestors_first)
  qed
  let ?r = "\<lparr>volumes = map ?g ?ks, full_size_volume = ?f\<rparr>"
  have 1: "mset (volumes ?r) = mset ?nf" using m by simp
  have 2: "full_size_volume ?r = ?f" by simp
  have 3: "\<forall>v. full_size_volume ?r = Some v \<longrightarrow> v \<notin> set (volumes ?r)"
    using nofs by (simp only: canonical_volume_type.simps) blast
  have 4: "map realpath (volumes ?r) = ?ks"
    using paths by (simp only: canonical_volume_type.simps)
  have 5: "\<forall>i j. i < length (volumes ?r) \<and> j < length (volumes ?r)
            \<and> path_below (realpath (volumes ?r ! j)) (realpath (volumes ?r ! i)) \<longrightarrow> i < j"
    using ord by (simp only: canonical_volume_type.simps) blast
  from r 1 2 3 4 5 show ?thesis by blast
qed

theorem canonical_volume_list_partition_witness:
  "get_canonical_volume_list sort_by_hierarchy
     [volume_type ''var'' ''/var'' ''size:200'' False,
      volume_type ''var_log'' ''/var/log'' ''size:100'' False,
      volume_type ''opt'' ''/opt'' ''size:50'' False,
      volume_type ''LVRoot'' ''/'' ''freespace:500'' True]
     = Inr \<lparr>volumes = [volume_type ''opt'' ''/opt'' ''size:50'' False,
                       volume_type ''var'' ''/var'' ''size:200'' False,
                       volume_type ''var_log'' ''/var/log'' ''size:100'' False],
            full_size_volume = Some (volume_type ''LVRoot'' ''/'' ''freespace:500'' True)\<rparr>"
proof -
  let ?vols = "[volume_type ''var'' ''/var'' ''size:200'' False,
      volume_type ''var_log'' ''/var/log'' ''size:100'' False,
      volume_type ''opt'' ''/opt'' ''size:50'' False,
      volume_type ''LVRoot'' ''/'' ''freespace:500'' True]"
  have d: "distinct (map realpath ?vols)" by (simp add: volume_type_def)
  have n: "\<forall>v\<in>set ?vols. realpath v \<noteq> []" by (simp add: volume_type_def)
  from canonical_volume_list_partition [OF d n]
  obtain r where r: "get_canonical_volume_list sort_by_hierarchy ?vols = Inr r"
    and p: "map realpath (volumes r) =
      sort_by_hierarchy (sort (map realpath (filter (\<lambda>v. \<not> fullsize v) ?vols)))"
    by blast
  have "get_canonical_volume_list sort_by_hierarchy ?vols
     = Inr \<lparr>volumes = [volume_type ''opt'' ''/opt'' ''size:50'' False,
                       volume_type ''var'' ''/var'' ''size:200'' False,
                       volume_type ''var_log'' ''/var/log'' ''size:100'' False],
            full_size_volume = Some (volume_type ''LVRoot'' ''/'' ''freespace:500'' True)\<rparr>"
    by (simp add: get_canonical_volume_list_def sort_by_hierarchy_def path_depth_def
        volume_type_def)
  with r p show ?thesis by simp
qed

end
